theory Spec2Isabelle
  imports Complex_Main
begin

section \<open>Conventions of the embedding\<close>

text \<open>
  The two Python modules are embedded function by function. Python
  exceptions are values of \<open>py_error\<close>; a function that can raise returns
  \<open>py_error + 'a\<close> with \<open>Inl\<close> for the exception. A Python \<open>str\<close> is the
  list of its Unicode code points. A finite Python float is the real number it
  denotes; the word times and the clip durations are such numbers, and the
  float subtraction, multiplication and division of the two modules round
  their exact result to the nearest double, as the section on doubles below
  defines it. The running total of the clip durations is their exact sum.
\<close>

datatype py_error =
    IndexError
  | ZeroDivisionError
  | OverflowError
  | OSError
  | ValueError string

type_synonym py_str = "nat list"

text \<open>The code points of a literal of ASCII characters.\<close>

definition codepoints :: "string \<Rightarrow> py_str" where
  "codepoints s = map of_char s"

text \<open>Python list indexing \<open>xs[i]\<close>: a negative index counts from the end, an
  index out of range raises.\<close>

definition py_index :: "'a list \<Rightarrow> int \<Rightarrow> py_error + 'a" where
  "py_index xs i =
     (let j = (if i < 0 then i + int (length xs) else i)
      in if j < 0 \<or> int (length xs) \<le> j then Inl IndexError else Inr (xs ! nat j))"

section \<open>Doubles\<close>

text \<open>
  IEEE 754 binary64 with the default rounding. A double other than zero is
  \<open>m * 2 ^ (e - 52)\<close> with an integer \<open>m\<close> of at most 53 bits and
  \<open>- 1022 \<le> e \<le> 1023\<close>. \<open>round_even\<close> is the nearest integer, a tie going
  to the even one. \<open>binade x\<close> is the exponent \<open>e\<close> with
  \<open>2 ^ e \<le> \<bar>x\<bar> < 2 ^ (e + 1)\<close>, found by counting up from 0 or down from
  \<open>- 1\<close>, and not below \<open>- 1022\<close>, where the subnormal numbers begin, nor
  above 1024. \<open>round_double x\<close> is the multiple of \<open>2 ^ (binade x - 52)\<close>
  nearest to \<open>x\<close>. A result of magnitude \<open>2 ^ 1024\<close> or more stands for an
  infinity.
\<close>

definition round_even :: "real \<Rightarrow> int" where
  "round_even q =
     (let f = \<lfloor>q\<rfloor>; d = q - of_int f
      in if d < 1 / 2 then f
         else if 1 / 2 < d then f + 1
         else if even f then f else f + 1)"

fun bin_up :: "nat \<Rightarrow> real \<Rightarrow> int \<Rightarrow> int" where
  "bin_up 0 a e = e"
| "bin_up (Suc n) a e = (if a < 2 powi (e + 1) then e else bin_up n a (e + 1))"

fun bin_down :: "nat \<Rightarrow> real \<Rightarrow> int \<Rightarrow> int" where
  "bin_down 0 a e = e"
| "bin_down (Suc n) a e = (if 2 powi e \<le> a then e else bin_down n a (e - 1))"

definition binade :: "real \<Rightarrow> int" where
  "binade x =
     (if 1 \<le> \<bar>x\<bar> then bin_up 1024 \<bar>x\<bar> 0 else bin_down 1021 \<bar>x\<bar> (- 1))"

definition round_double :: "real \<Rightarrow> real" where
  "round_double x =
     (let u = 2 powi (binade x - 52) in of_int (round_even (x / u)) * u)"

definition is_inf :: "real \<Rightarrow> bool" where
  "is_inf x = (2 ^ 1024 \<le> \<bar>x\<bar>)"

text \<open>\<open>x - y\<close> and \<open>x * y\<close> on floats; \<open>x / y\<close> on floats, which raises on a
  zero divisor and otherwise may give an infinity; \<open>a / b\<close> on integers,
  which is the correctly rounded quotient and raises when that is too large
  for a float; \<open>int(x)\<close> on a float, which truncates towards zero and raises
  on an infinity.\<close>

definition float_sub :: "real \<Rightarrow> real \<Rightarrow> real" where
  "float_sub x y = round_double (x - y)"

definition float_mul :: "real \<Rightarrow> real \<Rightarrow> real" where
  "float_mul x y = round_double (x * y)"

definition float_div :: "real \<Rightarrow> real \<Rightarrow> py_error + real" where
  "float_div x y = (if y = 0 then Inl ZeroDivisionError else Inr (round_double (x / y)))"

definition int_truediv :: "int \<Rightarrow> int \<Rightarrow> py_error + real" where
  "int_truediv a b =
     (if b = 0 then Inl ZeroDivisionError
      else let q = round_double (real_of_int a / real_of_int b)
           in if is_inf q then Inl OverflowError else Inr q)"

definition py_int :: "real \<Rightarrow> py_error + int" where
  "py_int x =
     (if is_inf x then Inl OverflowError
      else Inr (if 0 \<le> x then \<lfloor>x\<rfloor> else \<lceil>x\<rceil>))"

section \<open>caption\_generator.py\<close>

subsection \<open>Data\<close>

text \<open>A word of the transcription is a dictionary with the keys \<open>text\<close>,
  \<open>start\<close> and \<open>end\<close>; the dataclass \<open>CaptionPhrase\<close> has the fields
  \<open>text\<close>, \<open>start_time\<close> and \<open>end_time\<close>.\<close>

record word =
  w_text :: py_str
  w_start :: real
  w_end :: real

record CaptionPhrase =
  phrase_text :: py_str
  start_time :: real
  end_time :: real

subsection \<open>String helpers\<close>

text \<open>\<open>str.strip()\<close> removes the leading and the trailing whitespace. The
  whitespace of a Python \<open>str\<close> is the set of code points below: the ASCII
  controls 9 to 13 and 28 to 31, the space, and the Unicode spaces and line
  separators, the next line U+0085 and the no-break space U+00A0 among them.\<close>

definition is_space :: "nat \<Rightarrow> bool" where
  "is_space c =
     ((9 \<le> c \<and> c \<le> 13) \<or> (28 \<le> c \<and> c \<le> 32) \<or> c = 0x85 \<or> c = 0xA0 \<or>
      c = 0x1680 \<or> (0x2000 \<le> c \<and> c \<le> 0x200A) \<or> c = 0x2028 \<or> c = 0x2029 \<or>
      c = 0x202F \<or> c = 0x205F \<or> c = 0x3000)"

definition strip :: "py_str \<Rightarrow> py_str" where
  "strip s = rev (dropWhile is_space (rev (dropWhile is_space s)))"

text \<open>\<open>sep.join(xs)\<close>.\<close>

fun join :: "py_str \<Rightarrow> py_str list \<Rightarrow> py_str" where
  "join sep [] = []"
| "join sep [x] = x"
| "join sep (x # y # ys) = x @ sep @ join sep (y # ys)"

subsection \<open>group\_words\_into\_phrases\<close>

text \<open>The test that decides whether the accumulated words are flushed before
  the incoming word is appended. The four disjuncts are evaluated left to
  right as Python's \<open>or\<close> does; \<open>current_words[-1]\<close> is a fallible read.
  The two differences are float subtractions, the literal \<open>0.7\<close> is the
  double nearest to 7/10, and \<open>4.0\<close> is a double itself.\<close>

definition new_phrase_test :: "int \<Rightarrow> word list \<Rightarrow> real \<Rightarrow> word \<Rightarrow> py_error + bool" where
  "new_phrase_test target_words_per_phrase current_words current_start w =
     (if current_words = [] then Inr True
      else if target_words_per_phrase \<le> int (length current_words) then Inr True
      else (case py_index current_words (- 1) of
              Inl e \<Rightarrow> Inl e
            | Inr lw \<Rightarrow>
                if float_sub (w_start w) (w_end lw) > round_double 0.7 then Inr True
                else Inr (float_sub (w_end w) current_start > 4.0)))"

text \<open>Building a phrase from the accumulated words reads \<open>current_words[0]\<close>
  and \<open>current_words[-1]\<close>.\<close>

definition make_phrase :: "word list \<Rightarrow> py_error + CaptionPhrase" where
  "make_phrase current_words =
     (case py_index current_words 0 of
        Inl e \<Rightarrow> Inl e
      | Inr fw \<Rightarrow>
          (case py_index current_words (- 1) of
             Inl e \<Rightarrow> Inl e
           | Inr lw \<Rightarrow>
               Inr \<lparr>phrase_text = join [32] (map (\<lambda>w. strip (w_text w)) current_words),
                    start_time = w_start fw,
                    end_time = w_end lw\<rparr>))"

text \<open>\<open>if current_words: phrases.append(CaptionPhrase(...))\<close>, used inside the
  loop and once more after it.\<close>

definition flush :: "CaptionPhrase list \<Rightarrow> word list \<Rightarrow> py_error + CaptionPhrase list" where
  "flush phrases current_words =
     (if current_words \<noteq> [] then
        (case make_phrase current_words of
           Inl e \<Rightarrow> Inl e
         | Inr p \<Rightarrow> Inr (phrases @ [p]))
      else Inr phrases)"

text \<open>The loop state is \<open>(phrases, current_words, current_start)\<close>.\<close>

type_synonym seg_state = "CaptionPhrase list \<times> word list \<times> real"

fun seg_step :: "int \<Rightarrow> seg_state \<Rightarrow> word \<Rightarrow> py_error + seg_state" where
  "seg_step target (phrases, current_words, current_start) w =
     (case new_phrase_test target current_words current_start w of
        Inl e \<Rightarrow> Inl e
      | Inr True \<Rightarrow>
          (case flush phrases current_words of
             Inl e \<Rightarrow> Inl e
           | Inr phrases' \<Rightarrow> Inr (phrases', [w], w_start w))
      | Inr False \<Rightarrow> Inr (phrases, current_words @ [w], current_start))"

fun seg_loop :: "int \<Rightarrow> seg_state \<Rightarrow> word list \<Rightarrow> py_error + seg_state" where
  "seg_loop target s [] = Inr s"
| "seg_loop target s (w # ws) =
     (case seg_step target s w of
        Inl e \<Rightarrow> Inl e
      | Inr s' \<Rightarrow> seg_loop target s' ws)"

definition group_words_into_phrases :: "word list \<Rightarrow> int \<Rightarrow> py_error + CaptionPhrase list" where
  "group_words_into_phrases words target_words_per_phrase =
     (case seg_loop target_words_per_phrase ([], [], 0) words of
        Inl e \<Rightarrow> Inl e
      | Inr (phrases, current_words, current_start) \<Rightarrow> flush phrases current_words)"

subsection \<open>The runs of words behind the phrases\<close>

text \<open>To speak about which words a phrase was built from, the same loop is
  run once more keeping the accumulated word lists themselves instead of the
  phrases built from them. It takes its decisions from \<open>new_phrase_test\<close>, the
  test of the loop above.\<close>

type_synonym run_state = "word list list \<times> word list \<times> real"

fun run_step :: "int \<Rightarrow> run_state \<Rightarrow> word \<Rightarrow> run_state" where
  "run_step target (runs, current_words, current_start) w =
     (if new_phrase_test target current_words current_start w = Inr False
      then (runs, current_words @ [w], current_start)
      else ((if current_words = [] then runs else runs @ [current_words]), [w], w_start w))"

definition close_runs :: "run_state \<Rightarrow> word list list" where
  "close_runs s = (case s of (runs, current_words, current_start) \<Rightarrow>
       if current_words = [] then runs else runs @ [current_words])"

definition word_runs :: "int \<Rightarrow> word list \<Rightarrow> word list list" where
  "word_runs target ws = close_runs (foldl (run_step target) ([], [], 0) ws)"

text \<open>The phrase the source builds from a non-empty run.\<close>

definition phrase_of :: "word list \<Rightarrow> CaptionPhrase" where
  "phrase_of r =
     \<lparr>phrase_text = join [32] (map (\<lambda>w. strip (w_text w)) r),
      start_time = w_start (hd r),
      end_time = w_end (last r)\<rparr>"

definition flat :: "run_state \<Rightarrow> word list" where
  "flat s = concat (fst s) @ fst (snd s)"

text \<open>The input condition of the segmenter: every word has \<open>start \<le> end\<close> and
  the words are in chronological, non-overlapping order.\<close>

fun well_formed :: "word list \<Rightarrow> bool" where
  "well_formed [] = True"
| "well_formed [w] = (w_start w \<le> w_end w)"
| "well_formed (w # v # ws) =
     (w_start w \<le> w_end w \<and> w_end w \<le> w_start v \<and> well_formed (v # ws))"

text \<open>What a phrase text has to be, said without \<open>strip\<close> and \<open>join\<close>:
  \<open>t\<close> is \<open>s\<close> without its leading and trailing whitespace when \<open>s\<close> is
  \<open>t\<close> between two runs of whitespace and \<open>t\<close> neither begins nor ends with
  whitespace.\<close>

definition trimmed_of :: "py_str \<Rightarrow> py_str \<Rightarrow> bool" where
  "trimmed_of s t \<longleftrightarrow>
     (\<exists>a b. s = a @ t @ b \<and> list_all is_space a \<and> list_all is_space b \<and>
            (t = [] \<or> (\<not> is_space (hd t) \<and> \<not> is_space (last t))))"

text \<open>Three words at [0, 0.1], [0.2, 0.3] and [1.1, 1.2], the times being the
  doubles these decimals denote.\<close>

definition example_words :: "word list" where
  "example_words =
     [\<lparr>w_text = codepoints '' so'', w_start = 0, w_end = round_double 0.1\<rparr>,
      \<lparr>w_text = codepoints ''it '', w_start = round_double 0.2, w_end = round_double 0.3\<rparr>,
      \<lparr>w_text = codepoints ''goes'', w_start = round_double 1.1, w_end = round_double 1.2\<rparr>]"

text \<open>Two words whose texts carry no-break spaces and a tabulator.\<close>

definition example_nbsp_words :: "word list" where
  "example_nbsp_words =
     [\<lparr>w_text = [0xA0, 104, 105, 0xA0], w_start = 0, w_end = round_double 0.5\<rparr>,
      \<lparr>w_text = [9, 121, 111, 117, 0x2003], w_start = round_double 0.5, w_end = 1\<rparr>]"


section \<open>main.py\<close>

subsection \<open>Clips and the operations of the media library\<close>

text \<open>
  The video library is outside the repository. A clip is modelled by what the
  sequencing code reads and sets: the file it comes from, its frame size, its
  duration, the window of the file it shows, the size the library scaled the
  frame to, the rectangle cut out of the scaled frame and its fades.
  \<open>media\<close> stands for the files on disk: a path that cannot be opened has no
  entry.
\<close>

record video_file =
  vf_size :: "int \<times> int"
  vf_duration :: real

type_synonym media = "string \<Rightarrow> video_file option"

record clip =
  source :: string
  size :: "int \<times> int"
  duration :: real
  trim_start :: real
  trim_end :: real
  scaled_size :: "(int \<times> int) option"
  crop_rect :: "(int \<times> int \<times> int \<times> int) option"
  fade_in :: real
  fade_out :: real

text \<open>The concatenation of clips is itself a clip of the library; of it only
  the clips it plays and its duration matter here.\<close>

record sequence =
  entries :: "clip list"
  seq_duration :: real

definition VideoFileClip :: "media \<Rightarrow> string \<Rightarrow> py_error + clip" where
  "VideoFileClip m video_path =
     (case m video_path of
        None \<Rightarrow> Inl OSError
      | Some f \<Rightarrow>
          Inr \<lparr>source = video_path, size = vf_size f, duration = vf_duration f,
               trim_start = 0, trim_end = vf_duration f,
               scaled_size = None, crop_rect = None, fade_in = 0, fade_out = 0\<rparr>)"

text \<open>\<open>subclip(t_start, t_end)\<close> of the library: a negative time counts from the
  end of the clip, a start beyond the duration raises, and the new duration is
  \<open>t_end - t_start\<close>.\<close>

definition subclip_window :: "real \<Rightarrow> real \<Rightarrow> real \<Rightarrow> py_error + (real \<times> real)" where
  "subclip_window dur t_start t_end =
     (let ts = (if t_start < 0 then dur + t_start else t_start)
      in if ts > dur then Inl (ValueError ''t_start beyond the duration'')
         else Inr (ts, (if t_end < 0 then dur + t_end else t_end)))"

definition subclip :: "clip \<Rightarrow> real \<Rightarrow> real \<Rightarrow> py_error + clip" where
  "subclip c t_start t_end =
     (case subclip_window (duration c) t_start t_end of
        Inl e \<Rightarrow> Inl e
      | Inr (ts, te) \<Rightarrow>
          Inr (c\<lparr>duration := te - ts,
                 trim_start := trim_start c + ts,
                 trim_end := trim_start c + te\<rparr>))"

definition seq_subclip :: "sequence \<Rightarrow> real \<Rightarrow> real \<Rightarrow> py_error + sequence" where
  "seq_subclip s t_start t_end =
     (case subclip_window (seq_duration s) t_start t_end of
        Inl e \<Rightarrow> Inl e
      | Inr (ts, te) \<Rightarrow> Inr (s\<lparr>seq_duration := te - ts\<rparr>))"

text \<open>\<open>clip.resize(height=H)\<close> and \<open>clip.resize(width=W)\<close> of the library. For
  a frame of \<open>w\<close> by \<open>h\<close> they compute the new size as \<open>[w * H / h, H]\<close> and
  \<open>[W, h * W / w]\<close> and scale the frame to the integer parts.\<close>

definition resize_height :: "clip \<Rightarrow> int \<Rightarrow> py_error + clip" where
  "resize_height c H =
     (case size c of (w, h) \<Rightarrow>
        (case int_truediv (w * H) h of
           Inl e \<Rightarrow> Inl e
         | Inr x \<Rightarrow>
             (case py_int x of
                Inl e \<Rightarrow> Inl e
              | Inr nw \<Rightarrow> Inr (c\<lparr>size := (nw, H), scaled_size := Some (nw, H)\<rparr>))))"

definition resize_width :: "clip \<Rightarrow> int \<Rightarrow> py_error + clip" where
  "resize_width c W =
     (case size c of (w, h) \<Rightarrow>
        (case int_truediv (h * W) w of
           Inl e \<Rightarrow> Inl e
         | Inr y \<Rightarrow>
             (case py_int y of
                Inl e \<Rightarrow> Inl e
              | Inr nh \<Rightarrow> Inr (c\<lparr>size := (W, nh), scaled_size := Some (W, nh)\<rparr>))))"

text \<open>\<open>clip.crop(x1, y1, x2, y2)\<close> of the library cuts the frame as the array
  slice \<open>pic[y1:y2, x1:x2]\<close>, after replacing an \<open>x2\<close> or \<open>y2\<close> of 0 by the
  frame's width or height. \<open>slice_len n a b\<close> is the number of indices of
  \<open>a:b\<close> on an axis of length \<open>n\<close>.\<close>

definition slice_len :: "int \<Rightarrow> int \<Rightarrow> int \<Rightarrow> int" where
  "slice_len n a b =
     (let a' = (if a < 0 then max (a + n) 0 else min a n);
          b' = (if b < 0 then max (b + n) 0 else min b n)
      in max (b' - a') 0)"

definition crop :: "clip \<Rightarrow> int \<Rightarrow> int \<Rightarrow> int \<Rightarrow> int \<Rightarrow> clip" where
  "crop c x1 y1 x2 y2 =
     (case size c of (w, h) \<Rightarrow>
        let x2' = (if x2 = 0 then w else x2);
            y2' = (if y2 = 0 then h else y2)
        in c\<lparr>size := (slice_len w x1 x2', slice_len h y1 y2'),
               crop_rect := Some (x1, y1, x2', y2')\<rparr>)"

definition fadein :: "clip \<Rightarrow> real \<Rightarrow> clip" where
  "fadein c d = c\<lparr>fade_in := d\<rparr>"

definition fadeout :: "clip \<Rightarrow> real \<Rightarrow> clip" where
  "fadeout c d = c\<lparr>fade_out := d\<rparr>"

definition concatenate_videoclips :: "clip list \<Rightarrow> sequence" where
  "concatenate_videoclips clips =
     \<lparr>entries = clips, seq_duration = sum_list (map duration clips)\<rparr>"

subsection \<open>resize\_clip\_vertical\<close>

definition VERTICAL_WIDTH :: int where
  "VERTICAL_WIDTH = 1080"

definition VERTICAL_HEIGHT :: int where
  "VERTICAL_HEIGHT = 1920"

text \<open>The ratios are float quotients of integers; \<open>new_height * current_ratio\<close>
  and \<open>new_width / current_ratio\<close> are float operations on the converted
  integer constant, and \<open>int\<close> truncates their result. The statements run in
  the order of the source, so that the first one that raises decides the
  error.\<close>

definition resize_clip_vertical :: "clip \<Rightarrow> py_error + clip" where
  "resize_clip_vertical c =
     (case size c of (w, h) \<Rightarrow>
        (case int_truediv VERTICAL_WIDTH VERTICAL_HEIGHT of
           Inl e \<Rightarrow> Inl e
         | Inr target_ratio \<Rightarrow>
             (case int_truediv w h of
                Inl e \<Rightarrow> Inl e
              | Inr current_ratio \<Rightarrow>
                  if current_ratio > target_ratio then
                    (let new_height = VERTICAL_HEIGHT
                     in case py_int (float_mul (real_of_int new_height) current_ratio) of
                          Inl e \<Rightarrow> Inl e
                        | Inr new_width \<Rightarrow>
                            (case resize_height c new_height of
                               Inl e \<Rightarrow> Inl e
                             | Inr resized \<Rightarrow>
                                 let x_center = new_width div 2;
                                     x1 = x_center - (VERTICAL_WIDTH div 2)
                                 in Inr (crop resized x1 0 (x1 + VERTICAL_WIDTH)
                                           VERTICAL_HEIGHT)))
                  else
                    (let new_width = VERTICAL_WIDTH
                     in case float_div (real_of_int new_width) current_ratio of
                          Inl e \<Rightarrow> Inl e
                        | Inr q \<Rightarrow>
                            (case py_int q of
                               Inl e \<Rightarrow> Inl e
                             | Inr new_height \<Rightarrow>
                                 (case resize_width c new_width of
                                    Inl e \<Rightarrow> Inl e
                                  | Inr resized \<Rightarrow>
                                      let y_center = new_height div 2;
                                          y1 = y_center - (VERTICAL_HEIGHT div 2)
                                      in Inr (crop resized 0 y1 VERTICAL_WIDTH
                                                (y1 + VERTICAL_HEIGHT))))))))"

subsection \<open>process\_video\_clip\<close>

text \<open>The cap \<open>5.0\<close> is a double itself; the fade length \<open>1.2\<close> is the
  double nearest to 6/5.\<close>

definition process_video_clip :: "media \<Rightarrow> string \<Rightarrow> py_error + clip" where
  "process_video_clip m video_path =
     (case VideoFileClip m video_path of
        Inl e \<Rightarrow> Inl e
      | Inr clip \<Rightarrow>
          let subclip_duration = min 5.0 (duration clip)
          in (case subclip clip 0 subclip_duration of
                Inl e \<Rightarrow> Inl e
              | Inr base_clip \<Rightarrow>
                  (case resize_clip_vertical base_clip of
                     Inl e \<Rightarrow> Inl e
                   | Inr resized_clip \<Rightarrow>
                       Inr (fadeout (fadein resized_clip (round_double 1.2))
                              (round_double 1.2)))))"

subsection \<open>create\_video\_sequence\<close>

text \<open>The selection loop over \<open>video_paths\<close> with its state
  \<open>(processed_clips, total_duration)\<close>. An exception of \<open>process_video_clip\<close>
  is caught and the loop goes on with the next path; the loop stops as soon as
  the running total reaches the target.\<close>

fun select_loop :: "media \<Rightarrow> real \<Rightarrow> clip list \<times> real \<Rightarrow> string list \<Rightarrow> clip list \<times> real" where
  "select_loop m target_duration (processed_clips, total_duration) [] =
     (processed_clips, total_duration)"
| "select_loop m target_duration (processed_clips, total_duration) (video_path # rest) =
     (case process_video_clip m video_path of
        Inl e \<Rightarrow> select_loop m target_duration (processed_clips, total_duration) rest
      | Inr clip \<Rightarrow>
          if total_duration + duration clip \<ge> target_duration
          then (processed_clips @ [clip], total_duration + duration clip)
          else select_loop m target_duration
                 (processed_clips @ [clip], total_duration + duration clip) rest)"

definition create_video_sequence :: "media \<Rightarrow> string list \<Rightarrow> real \<Rightarrow> py_error + sequence" where
  "create_video_sequence m video_paths target_duration =
     (case select_loop m target_duration ([], 0) video_paths of
        (processed_clips, total_duration) \<Rightarrow>
          if processed_clips = [] then Inl (ValueError ''No video clips could be processed.'')
          else
            let final_sequence = concatenate_videoclips processed_clips
            in if seq_duration final_sequence > target_duration
               then seq_subclip final_sequence 0 target_duration
               else Inr final_sequence)"

subsection \<open>Notions used to state the properties\<close>

text \<open>The clips of a pool that can be processed, in pool order, and the pool's
  total duration with every clip capped by the processing step.\<close>

definition processable_clips :: "media \<Rightarrow> string list \<Rightarrow> clip list" where
  "processable_clips m video_paths =
     concat (map (\<lambda>p. case process_video_clip m p of Inl e \<Rightarrow> [] | Inr c \<Rightarrow> [c]) video_paths)"


text \<open>A small disk: a landscape file of 3 seconds, a portrait file of 8
  seconds, and nothing else.\<close>

definition example_media :: media where
  "example_media p =
     (if p = ''a.mp4'' then Some \<lparr>vf_size = (1920, 1080), vf_duration = 3\<rparr>
      else if p = ''b.mp4'' then Some \<lparr>vf_size = (720, 1280), vf_duration = 8\<rparr>
      else None)"

text \<open>What processing makes of the two files.\<close>

definition example_clip_a :: clip where
  "example_clip_a =
     \<lparr>source = ''a.mp4'', size = (1080, 1920), duration = 3,
      trim_start = 0, trim_end = 3,
      scaled_size = Some (3413, 1920), crop_rect = Some (1166, 0, 2246, 1920),
      fade_in = round_double 1.2, fade_out = round_double 1.2\<rparr>"

definition example_clip_b :: clip where
  "example_clip_b =
     \<lparr>source = ''b.mp4'', size = (1080, 1920), duration = 5,
      trim_start = 0, trim_end = 5,
      scaled_size = Some (1080, 1920), crop_rect = Some (0, 0, 1080, 1920),
      fade_in = round_double 1.2, fade_out = round_double 1.2\<rparr>"

text \<open>A clip with a 4:3 frame, one with a frame of 1080 by 2000 and one with
  a frame of 980 by 960.\<close>

definition example_frame :: clip where
  "example_frame =
     \<lparr>source = ''wide.mp4'', size = (640, 480), duration = 4,
      trim_start = 0, trim_end = 4,
      scaled_size = None, crop_rect = None, fade_in = 0, fade_out = 0\<rparr>"

definition example_tall_frame :: clip where
  "example_tall_frame =
     \<lparr>source = ''tall.mp4'', size = (1080, 2000), duration = 4,
      trim_start = 0, trim_end = 4,
      scaled_size = None, crop_rect = None, fade_in = 0, fade_out = 0\<rparr>"

definition example_square_frame :: clip where
  "example_square_frame =
     \<lparr>source = ''square.mp4'', size = (980, 960), duration = 4,
      trim_start = 0, trim_end = 4,
      scaled_size = None, crop_rect = None, fade_in = 0, fade_out = 0\<rparr>"

section \<open>Evaluating doubles\<close>

lemma bin_up_numeral:
  "bin_up (numeral k) a e =
     (if a < 2 powi (e + 1) then e else bin_up (pred_numeral k) a (e + 1))"
  by (simp add: numeral_eq_Suc)

lemma bin_down_numeral:
  "bin_down (numeral k) a e =
     (if 2 powi e \<le> a then e else bin_down (pred_numeral k) a (e - 1))"
  by (simp add: numeral_eq_Suc)

lemmas float_eval =
  round_double_def binade_def bin_up_numeral bin_down_numeral round_even_def Let_def
  float_sub_def float_mul_def float_div_def int_truediv_def py_int_def is_inf_def

lemma double_values:
  "round_double (1 / 10) = 3602879701896397 / 36028797018963968"
  "round_double (1 / 5) = 3602879701896397 / 18014398509481984"
  "round_double (3 / 10) = 5404319552844595 / 18014398509481984"
  "round_double (1 / 2) = 1 / 2"
  "round_double (7 / 10) = 3152519739159347 / 4503599627370496"
  "round_double (11 / 10) = 2476979795053773 / 2251799813685248"
  "round_double (6 / 5) = 5404319552844595 / 4503599627370496"
  by (simp_all add: float_eval)

text \<open>The two subtractions of the examples: \<open>1.1 - 0.3\<close> is a double above
  the double of 0.7, and \<open>1.0 - 0.3\<close> is the double of 0.7 itself.\<close>

lemma example_gaps:
  "float_sub (round_double (11 / 10)) (round_double (3 / 10)) =
     3602879701896397 / 4503599627370496"
  "float_sub 1 (round_double (3 / 10)) = round_double (7 / 10)"
  by (simp_all add: float_eval)

section \<open>Properties of the phrase segmenter\<close>

subsection \<open>The fallible reads succeed\<close>

lemma py_index_last: "xs \<noteq> [] \<Longrightarrow> py_index xs (- 1) = Inr (last xs)"
  by (cases xs rule: rev_cases) (simp_all add: py_index_def Let_def nat_add_distrib)

lemma py_index_first: "xs \<noteq> [] \<Longrightarrow> py_index xs 0 = Inr (hd xs)"
  by (cases xs) (simp_all add: py_index_def)

lemma new_phrase_test_total:
  "new_phrase_test t cur cs w =
     Inr (cur = [] \<or> t \<le> int (length cur)
          \<or> float_sub (w_start w) (w_end (last cur)) > round_double 0.7
          \<or> float_sub (w_end w) cs > 4)"
  by (simp add: new_phrase_test_def py_index_last)

lemma make_phrase_nonempty: "cur \<noteq> [] \<Longrightarrow> make_phrase cur = Inr (phrase_of cur)"
  by (simp add: make_phrase_def py_index_first py_index_last phrase_of_def)

lemma flush_runs:
  "flush (map phrase_of rs) cur = Inr (map phrase_of (close_runs (rs, cur, cs)))"
  by (simp add: flush_def close_runs_def make_phrase_nonempty)

lemma seg_step_runs:
  "seg_step t (map phrase_of rs, cur, cs) w =
     Inr (case run_step t (rs, cur, cs) w of
            (rs', cur', cs') \<Rightarrow> (map phrase_of rs', cur', cs'))"
  using flush_runs[of rs cur cs]
  by (auto simp add: new_phrase_test_total close_runs_def)

lemma seg_loop_runs:
  "seg_loop t (map phrase_of rs, cur, cs) ws =
     Inr (case foldl (run_step t) (rs, cur, cs) ws of
            (rs', cur', cs') \<Rightarrow> (map phrase_of rs', cur', cs'))"
proof (induction ws arbitrary: rs cur cs)
  case Nil
  then show ?case by simp
next
  case (Cons w ws)
  obtain rs' cur' cs' where st: "run_step t (rs, cur, cs) w = (rs', cur', cs')"
    by (cases "run_step t (rs, cur, cs) w") auto
  have "seg_step t (map phrase_of rs, cur, cs) w = Inr (map phrase_of rs', cur', cs')"
    using seg_step_runs[of t rs cur cs w] st by simp
  then show ?case using Cons.IH[of rs' cur' cs'] st by simp
qed

lemma group_words_runs:
  "group_words_into_phrases ws t = Inr (map phrase_of (word_runs t ws))"
proof -
  obtain rs cur cs where st: "foldl (run_step t) ([], [], 0) ws = (rs, cur, cs)"
    by (cases "foldl (run_step t) ([], [], 0) ws") auto
  have "seg_loop t ([], [], 0) ws = Inr (map phrase_of rs, cur, cs)"
    using seg_loop_runs[of t "[]" "[]" 0 ws] st by simp
  then show ?thesis
    using flush_runs[of rs cur cs] st
    by (simp add: group_words_into_phrases_def word_runs_def)
qed

subsection \<open>Invariants of the loop\<close>

lemma flat_run_step: "flat (run_step t s w) = flat s @ [w]"
  by (cases s) (simp add: flat_def)

lemma flat_foldl: "flat (foldl (run_step t) s xs) = flat s @ xs"
  by (induction xs arbitrary: s) (simp_all add: flat_run_step)



lemma run_step_nonempty: "[] \<notin> set (fst s) \<Longrightarrow> [] \<notin> set (fst (run_step t s w))"
  by (cases s) simp

lemma foldl_nonempty:
  "[] \<notin> set (fst s) \<Longrightarrow> [] \<notin> set (fst (foldl (run_step t) s xs))"
  by (induction xs arbitrary: s) (simp_all add: run_step_nonempty)



lemma concat_close_runs: "concat (close_runs s) = flat s"
  by (cases s) (simp add: close_runs_def flat_def)

lemma close_runs_nonempty: "[] \<notin> set (fst s) \<Longrightarrow> [] \<notin> set (close_runs s)"
  by (cases s) (auto simp add: close_runs_def)

lemma word_runs_concat: "concat (word_runs t ws) = ws"
  using flat_foldl[of t "([], [], 0)" ws]
  by (simp add: word_runs_def concat_close_runs flat_def)

lemma word_runs_nonempty: "[] \<notin> set (word_runs t ws)"
  by (simp add: word_runs_def close_runs_nonempty foldl_nonempty)

subsection \<open>Well-formed streams\<close>

lemma well_formed_append: "well_formed (xs @ ys) \<Longrightarrow> well_formed xs \<and> well_formed ys"
proof (induction xs rule: well_formed.induct)
  case 1
  then show ?case by simp
next
  case (2 w)
  then show ?case by (cases ys) simp_all
next
  case (3 w v ws)
  then show ?case by simp
qed

lemma well_formed_span:
  "well_formed r \<Longrightarrow> r \<noteq> [] \<Longrightarrow> w_start (hd r) \<le> w_end (last r)"
proof (induction r rule: well_formed.induct)
  case 1
  then show ?case by simp
next
  case (2 w)
  then show ?case by simp
next
  case (3 w v ws)
  then show ?case by (cases ws) auto
qed

lemma run_in_concat:
  assumes "r \<in> set runs"
  shows "\<exists>a b. concat runs = a @ r @ b"
proof -
  obtain xs ys where "runs = xs @ r # ys"
    using assms by (auto dest: split_list)
  then have "concat runs = concat xs @ r @ concat ys" by simp
  then show ?thesis by blast
qed

lemma well_formed_run:
  assumes "well_formed (concat runs)" and "r \<in> set runs" and "r \<noteq> []"
  shows "w_start (hd r) \<le> w_end (last r)"
proof -
  obtain a b where "concat runs = a @ r @ b"
    using run_in_concat[OF assms(2)] by blast
  then have "well_formed r"
    using assms(1) well_formed_append by metis
  then show ?thesis using assms(3) by (rule well_formed_span)
qed

subsection \<open>A pause closes the phrase\<close>


subsection \<open>Stripping and joining\<close>

lemma strip_trimmed: "trimmed_of s (strip s)"
proof -
  let ?d = "dropWhile is_space s"
  let ?x = "dropWhile is_space (rev ?d)"
  have s: "s = takeWhile is_space s @ ?d" by simp
  have "?d = rev (rev ?d)" by simp
  also have "\<dots> = rev (takeWhile is_space (rev ?d) @ ?x)"
    by (simp only: takeWhile_dropWhile_id)
  also have "\<dots> = rev ?x @ rev (takeWhile is_space (rev ?d))"
    by (rule rev_append)
  finally have d: "?d = rev ?x @ rev (takeWhile is_space (rev ?d))" .
  have split: "s = takeWhile is_space s @ strip s @ rev (takeWhile is_space (rev ?d))"
    using s d by (metis strip_def)
  have a: "list_all is_space (takeWhile is_space s)"
    by (auto simp add: list_all_iff dest: set_takeWhileD)
  have b: "list_all is_space (rev (takeWhile is_space (rev ?d)))"
    by (auto simp add: list_all_iff dest: set_takeWhileD)
  have ends: "strip s = [] \<or> (\<not> is_space (hd (strip s)) \<and> \<not> is_space (last (strip s)))"
  proof (cases "?x = []")
    case True
    then show ?thesis by (simp add: strip_def)
  next
    case False
    have dne: "?d \<noteq> []"
    proof
      assume e: "?d = []"
      have "?x = []" by (simp only: e rev.simps dropWhile.simps)
      then show False using False by simp
    qed
    have "last (strip s) = hd ?x"
      using False by (simp add: strip_def last_rev)
    then have l: "\<not> is_space (last (strip s))"
      using False hd_dropWhile[of is_space "rev ?d"] by simp
    have "rev ?d = takeWhile is_space (rev ?d) @ ?x" by simp
    then have "last (rev ?d) = last ?x"
      using False by (metis last_appendR)
    then have "hd ?d = last ?x"
      using dne by (simp add: last_rev)
    moreover have "hd (strip s) = last ?x"
      using False by (simp add: strip_def hd_rev)
    ultimately have "hd (strip s) = hd ?d" by simp
    then have h: "\<not> is_space (hd (strip s))"
      using dne hd_dropWhile[of is_space s] by simp
    show ?thesis using h l by simp
  qed
  show ?thesis
    unfolding trimmed_of_def using split a b ends by blast
qed

lemma join_spaced:
  "xs \<noteq> [] \<Longrightarrow> join [32] xs = hd xs @ concat (map (\<lambda>s. 32 # s) (tl xs))"
  by (induction "[32::nat]" xs rule: join.induct) simp_all

lemma phrase_of_text:
  assumes "r \<noteq> []"
  shows "phrase_text (phrase_of r) =
           hd (map (\<lambda>w. strip (w_text w)) r) @
           concat (map (\<lambda>s. 32 # s) (tl (map (\<lambda>w. strip (w_text w)) r)))"
proof -
  have "map (\<lambda>w. strip (w_text w)) r \<noteq> []" using assms by simp
  then show ?thesis
    using join_spaced[of "map (\<lambda>w. strip (w_text w)) r"] by (simp add: phrase_of_def)
qed

subsection \<open>The example streams\<close>

lemma strip_examples:
  "strip (codepoints '' so'') = codepoints ''so''"
  "strip (codepoints ''it '') = codepoints ''it''"
  "strip (codepoints ''goes'') = codepoints ''goes''"
  "strip (codepoints ''a'') = codepoints ''a''"
  "strip (codepoints ''b'') = codepoints ''b''"
  "strip [0xA0, 104, 105, 0xA0] = [104, 105]"
  "strip [9, 121, 111, 117, 0x2003] = [121, 111, 117]"
  by (simp_all add: strip_def is_space_def codepoints_def)

lemma example_phrases:
  "group_words_into_phrases example_words 5 =
     Inr [\<lparr>phrase_text = codepoints ''so it'', start_time = 0,
           end_time = round_double 0.3\<rparr>,
          \<lparr>phrase_text = codepoints ''goes'', start_time = round_double 1.1,
           end_time = round_double 1.2\<rparr>]"
  by (simp add: group_words_into_phrases_def example_words_def new_phrase_test_def flush_def
        make_phrase_def py_index_def strip_examples float_eval)
     (simp add: codepoints_def)


lemma example_well_formed: "well_formed example_words"
  by (simp add: example_words_def double_values)

lemma example_nbsp_phrases:
  "group_words_into_phrases example_nbsp_words 5 =
     Inr [\<lparr>phrase_text = codepoints ''hi you'', start_time = 0, end_time = 1\<rparr>]"
  by (simp add: group_words_into_phrases_def example_nbsp_words_def new_phrase_test_def
        flush_def make_phrase_def py_index_def strip_examples float_eval)
     (simp add: codepoints_def)


subsection \<open>The claims about the segmenter\<close>

text \<open>
  C3. For every non-empty word stream the phrases returned by
  \<open>group_words_into_phrases\<close> come from a division of the stream into
  consecutive non-empty runs, one phrase for each run: the runs concatenated
  are the input, so every word occurs exactly once and in input order. The
  text of a phrase is the first stripped text of its run followed by each
  further stripped text behind one space, and the stripped text of a word is
  its text without its leading and trailing whitespace.
\<close>

theorem phrases_cover_every_word:
  assumes "ws \<noteq> []"
  shows "\<exists>runs ps. concat runs = ws \<and> [] \<notin> set runs \<and>
           group_words_into_phrases ws t = Inr ps \<and>
           length ps = length runs \<and>
           (\<forall>i < length runs.
              phrase_text (ps ! i) =
                hd (map (\<lambda>w. strip (w_text w)) (runs ! i)) @
                concat (map (\<lambda>s. 32 # s) (tl (map (\<lambda>w. strip (w_text w)) (runs ! i))))) \<and>
           (\<forall>w \<in> set ws. trimmed_of (w_text w) (strip (w_text w)))"
proof -
  let ?runs = "word_runs t ws"
  let ?ps = "map phrase_of ?runs"
  have texts: "\<forall>i < length ?runs.
      phrase_text (?ps ! i) =
        hd (map (\<lambda>w. strip (w_text w)) (?runs ! i)) @
        concat (map (\<lambda>s. 32 # s) (tl (map (\<lambda>w. strip (w_text w)) (?runs ! i))))"
  proof (intro allI impI)
    fix i assume i: "i < length ?runs"
    then have "?runs ! i \<in> set ?runs" by simp
    then have "?runs ! i \<noteq> []" using word_runs_nonempty[of t ws] by metis
    then show "phrase_text (?ps ! i) =
        hd (map (\<lambda>w. strip (w_text w)) (?runs ! i)) @
        concat (map (\<lambda>s. 32 # s) (tl (map (\<lambda>w. strip (w_text w)) (?runs ! i))))"
      using i phrase_of_text[of "?runs ! i"] by simp
  qed
  have trims: "\<forall>w \<in> set ws. trimmed_of (w_text w) (strip (w_text w))"
    by (simp add: strip_trimmed)
  have len: "length ?ps = length ?runs" by simp
  show ?thesis
    using word_runs_concat[of t ws] word_runs_nonempty[of t ws] group_words_runs[of ws t]
      len texts trims
    by blast
qed

theorem phrases_cover_every_word_witness:
  "example_nbsp_words \<noteq> [] \<and>
   group_words_into_phrases example_nbsp_words 5 =
     Inr [\<lparr>phrase_text = codepoints ''hi you'', start_time = 0, end_time = 1\<rparr>] \<and>
   (\<exists>runs ps. concat runs = example_nbsp_words \<and> [] \<notin> set runs \<and>
      group_words_into_phrases example_nbsp_words 5 = Inr ps \<and>
      length ps = length runs \<and>
      (\<forall>i < length runs.
         phrase_text (ps ! i) =
           hd (map (\<lambda>w. strip (w_text w)) (runs ! i)) @
           concat (map (\<lambda>s. 32 # s) (tl (map (\<lambda>w. strip (w_text w)) (runs ! i))))) \<and>
      (\<forall>w \<in> set example_nbsp_words. trimmed_of (w_text w) (strip (w_text w))))"
proof -
  have ne: "example_nbsp_words \<noteq> []" by (simp add: example_nbsp_words_def)
  show ?thesis
    by (rule conjI[OF ne conjI[OF example_nbsp_phrases phrases_cover_every_word[OF ne]]])
qed




text \<open>
  C5. On a well-formed stream (every word has \<open>start \<le> end\<close>, and each word
  ends no later than the next one starts) the phrases come from consecutive
  non-empty runs of the stream; each phrase starts with the first word of its
  run and ends with the last, and so does not end before it starts. No phrase
  is built from an empty run.
\<close>

theorem phrase_times_ordered:
  assumes "well_formed ws"
  shows "\<exists>runs ps. concat runs = ws \<and> [] \<notin> set runs \<and>
           group_words_into_phrases ws t = Inr ps \<and>
           length ps = length runs \<and>
           (\<forall>i < length runs.
              start_time (ps ! i) = w_start (hd (runs ! i)) \<and>
              end_time (ps ! i) = w_end (last (runs ! i)) \<and>
              start_time (ps ! i) \<le> end_time (ps ! i))"
proof -
  let ?runs = "word_runs t ws"
  let ?ps = "map phrase_of ?runs"
  have wf: "well_formed (concat ?runs)"
    using assms by (simp add: word_runs_concat)
  have "\<forall>i < length ?runs.
          start_time (?ps ! i) = w_start (hd (?runs ! i)) \<and>
          end_time (?ps ! i) = w_end (last (?runs ! i)) \<and>
          start_time (?ps ! i) \<le> end_time (?ps ! i)"
  proof (intro allI impI)
    fix i assume i: "i < length ?runs"
    then have mem: "?runs ! i \<in> set ?runs" by simp
    then have ne: "?runs ! i \<noteq> []" using word_runs_nonempty[of t ws] by metis
    have "w_start (hd (?runs ! i)) \<le> w_end (last (?runs ! i))"
      using well_formed_run[OF wf mem ne] .
    then show "start_time (?ps ! i) = w_start (hd (?runs ! i)) \<and>
          end_time (?ps ! i) = w_end (last (?runs ! i)) \<and>
          start_time (?ps ! i) \<le> end_time (?ps ! i)"
      using i by (simp add: phrase_of_def)
  qed
  moreover have "length ?ps = length ?runs" by simp
  ultimately show ?thesis
    using word_runs_concat[of t ws] word_runs_nonempty[of t ws] group_words_runs[of ws t]
    by blast
qed

theorem phrase_times_ordered_witness:
  "well_formed example_words \<and>
   (\<exists>runs ps. concat runs = example_words \<and> [] \<notin> set runs \<and>
      group_words_into_phrases example_words 5 = Inr ps \<and>
      length ps = length runs \<and>
      (\<forall>i < length runs.
         start_time (ps ! i) = w_start (hd (runs ! i)) \<and>
         end_time (ps ! i) = w_end (last (runs ! i)) \<and>
         start_time (ps ! i) \<le> end_time (ps ! i)))"
proof -
  have wf: "well_formed example_words" by (rule example_well_formed)
  show ?thesis using wf phrase_times_ordered[OF wf, of 5] by simp
qed

text \<open>
  C6. \<open>group_words_into_phrases\<close> raises on no input: it returns a list of
  phrases for every stream and every word limit. With an empty accumulator
  the test answers at its first disjunct, before the reads of the last
  accumulated word and of the phrase start, and every read of
  \<open>current_words[0]\<close> and \<open>current_words[-1]\<close> that is made succeeds. The
  empty stream gives the empty list.
\<close>

theorem segmentation_total:
  "(\<exists>ps. group_words_into_phrases ws t = Inr ps) \<and>
   group_words_into_phrases [] t = Inr [] \<and>
   new_phrase_test t [] cs w = Inr True \<and>
   (\<exists>b. new_phrase_test t cur cs' w' = Inr b)"
  by (simp add: group_words_runs new_phrase_test_total word_runs_def close_runs_def)

theorem segmentation_total_witness:
  "(\<exists>ps. group_words_into_phrases example_words 5 = Inr ps) \<and>
   group_words_into_phrases [] 5 = Inr [] \<and>
   new_phrase_test 5 [] 0 (hd example_words) = Inr True \<and>
   (\<exists>b. new_phrase_test 5 (take 2 example_words) 0 (last example_words) = Inr b)"
  by (rule segmentation_total)

section \<open>Properties of the sequence builder\<close>

subsection \<open>What processing does to a clip\<close>

lemma resize_clip_vertical_keeps:
  assumes "resize_clip_vertical b = Inr r"
  shows "source r = source b \<and> duration r = duration b \<and>
         trim_start r = trim_start b \<and> trim_end r = trim_end b"
proof (cases "size b")
  case (Pair w h)
  then show ?thesis
    using assms
    by (auto simp add: resize_clip_vertical_def Let_def crop_def resize_height_def
          resize_width_def split: if_splits sum.splits prod.splits)
qed

lemma subclip_from_start:
  assumes "subclip c 0 t = Inr b" and "0 \<le> t"
  shows "0 \<le> duration c \<and> b = c\<lparr>duration := t, trim_start := trim_start c,
           trim_end := trim_start c + t\<rparr>"
  using assms
  by (auto simp add: subclip_def subclip_window_def Let_def split: if_splits)

lemma subclip_negative_fails:
  "duration c < 0 \<Longrightarrow> \<exists>e. subclip c 0 t = Inl e"
  by (simp add: subclip_def subclip_window_def)

lemma process_video_clip_Inr:
  assumes "process_video_clip m p = Inr c"
  shows "\<exists>f. m p = Some f \<and> 0 \<le> vf_duration f \<and> source c = p \<and>
             trim_start c = 0 \<and> trim_end c = min 5 (vf_duration f) \<and>
             duration c = min 5 (vf_duration f)"
proof (cases "m p")
  case None
  then show ?thesis using assms by (simp add: process_video_clip_def VideoFileClip_def)
next
  case (Some f)
  let ?v = "\<lparr>source = p, size = vf_size f, duration = vf_duration f,
               trim_start = 0, trim_end = vf_duration f,
               scaled_size = None, crop_rect = None, fade_in = 0, fade_out = 0\<rparr>"
  have v: "VideoFileClip m p = Inr ?v"
    using Some by (simp add: VideoFileClip_def)
  have nonneg: "0 \<le> vf_duration f"
  proof (rule ccontr)
    assume "\<not> 0 \<le> vf_duration f"
    then have "duration ?v < 0" by simp
    then obtain e where "subclip ?v 0 (min 5 (vf_duration f)) = Inl e"
      using subclip_negative_fails by blast
    then show False
      using assms v by (simp add: process_video_clip_def)
  qed
  obtain b where b: "subclip ?v 0 (min 5 (vf_duration f)) = Inr b"
    using assms v by (auto simp add: process_video_clip_def split: sum.splits)
  have bval: "b = ?v\<lparr>duration := min 5 (vf_duration f), trim_start := 0,
                    trim_end := min 5 (vf_duration f)\<rparr>"
    using subclip_from_start[OF b] nonneg by simp
  obtain r where r: "resize_clip_vertical b = Inr r"
    using assms v b by (auto simp add: process_video_clip_def split: sum.splits)
  have c: "c = fadeout (fadein r (round_double 1.2)) (round_double 1.2)"
    using assms v b r by (simp add: process_video_clip_def)
  have "source r = p \<and> duration r = min 5 (vf_duration f) \<and>
        trim_start r = 0 \<and> trim_end r = min 5 (vf_duration f)"
    using resize_clip_vertical_keeps[OF r] bval by simp
  then show ?thesis
    using Some nonneg c by (simp add: fadein_def fadeout_def)
qed


subsection \<open>The selection loop\<close>

lemma select_loop_origin:
  assumes "c \<in> set (fst (select_loop m t (acc, tot) ps))"
  shows "c \<in> set acc \<or> (\<exists>p \<in> set ps. process_video_clip m p = Inr c)"
  using assms
proof (induction ps arbitrary: acc tot)
  case Nil
  then show ?case by simp
next
  case (Cons p ps)
  show ?case
  proof (cases "process_video_clip m p")
    case (Inl e)
    then show ?thesis using Cons.IH[of acc tot] Cons.prems by auto
  next
    case (Inr d)
    show ?thesis
    proof (cases "tot + duration d \<ge> t")
      case True
      then show ?thesis using Inr Cons.prems by auto
    next
      case False
      then have "c \<in> set (fst (select_loop m t (acc @ [d], tot + duration d) ps))"
        using Inr Cons.prems by simp
      then show ?thesis using Cons.IH[of "acc @ [d]" "tot + duration d"] Inr by auto
    qed
  qed
qed



lemma select_loop_skip:
  assumes "process_video_clip m p = Inl e"
  shows "select_loop m t (acc, tot) (xs @ p # ys) = select_loop m t (acc, tot) (xs @ ys)"
proof (induction xs arbitrary: acc tot)
  case Nil
  then show ?case using assms by simp
next
  case (Cons x xs)
  then show ?case by (simp split: sum.splits)
qed


lemma processable_clips_Cons:
  "processable_clips m (p # ps) =
     (case process_video_clip m p of Inl e \<Rightarrow> [] | Inr c \<Rightarrow> [c]) @ processable_clips m ps"
  by (simp add: processable_clips_def)


lemma processable_clips_empty_iff:
  "processable_clips m ps = [] \<longleftrightarrow> (\<forall>p \<in> set ps. isl (process_video_clip m p))"
  by (induction ps) (auto simp add: processable_clips_Cons processable_clips_def split: sum.splits)


subsection \<open>The returned sequence\<close>



lemma create_video_sequence_entries:
  assumes "create_video_sequence m pool t = Inr plan"
  shows "entries plan = fst (select_loop m t ([], 0) pool) \<and> entries plan \<noteq> []"
proof -
  obtain cl tot where sl: "select_loop m t ([], 0) pool = (cl, tot)"
    by (cases "select_loop m t ([], 0) pool") auto
  have ne: "cl \<noteq> []"
    using assms sl by (auto simp add: create_video_sequence_def split: if_splits)
  have "entries plan = cl"
    using assms sl ne
    by (auto simp add: create_video_sequence_def concatenate_videoclips_def Let_def
          seq_subclip_def split: if_splits sum.splits)
  then show ?thesis using sl ne by simp
qed



subsection \<open>The doubles of the example frames\<close>

text \<open>The ratios of the example frames, the sizes the source computes from
  them and the sizes the library scales the frames to.\<close>

lemma target_ratio_value: "int_truediv 1080 1920 = Inr (9 / 16)"
  by (simp add: float_eval)

lemma ratio_values:
  "int_truediv 1920 1080 = Inr (2001599834386887 / 1125899906842624)"
  "int_truediv 720 1280 = Inr (9 / 16)"
  "int_truediv 640 480 = Inr (6004799503160661 / 4503599627370496)"
  "int_truediv 1080 2000 = Inr (607985949695017 / 1125899906842624)"
  "int_truediv 980 960 = Inr (4597424619607381 / 4503599627370496)"
  by (simp_all add: float_eval)

lemma new_size_values:
  "py_int (float_mul 1920 (2001599834386887 / 1125899906842624)) = Inr 3413"
  "py_int (float_mul 1920 (6004799503160661 / 4503599627370496)) = Inr 2560"
  "py_int (float_mul 1920 (4597424619607381 / 4503599627370496)) = Inr 1959"
  by (simp_all add: float_eval)

lemma new_height_values:
  "float_div 1080 (9 / 16) = Inr 1920"
  "float_div 1080 (607985949695017 / 1125899906842624) =
     Inr (8796093022207999 / 4398046511104)"
  "py_int 1920 = Inr 1920"
  "py_int (8796093022207999 / 4398046511104) = Inr 1999"
  by (simp_all add: float_eval)

lemma library_size_values:
  "int_truediv 3686400 1080 = Inr (7505999378950827 / 2199023255552)"
  "py_int (7505999378950827 / 2199023255552) = Inr 3413"
  "int_truediv 1382400 720 = Inr 1920"
  "int_truediv 1228800 480 = Inr 2560"
  "py_int 2560 = Inr 2560"
  "int_truediv 2160000 1080 = Inr 2000"
  "py_int 2000 = Inr 2000"
  "int_truediv 1881600 960 = Inr 1960"
  "py_int 1960 = Inr 1960"
  by (simp_all add: float_eval)

lemmas frame_values =
  target_ratio_value ratio_values new_size_values new_height_values library_size_values

subsection \<open>The example disk\<close>

lemma example_process_a: "process_video_clip example_media ''a.mp4'' = Inr example_clip_a"
  by (simp add: process_video_clip_def VideoFileClip_def example_media_def subclip_def
        subclip_window_def resize_clip_vertical_def VERTICAL_WIDTH_def VERTICAL_HEIGHT_def
        resize_height_def crop_def slice_len_def fadein_def fadeout_def example_clip_a_def
        frame_values)

lemma example_process_b: "process_video_clip example_media ''b.mp4'' = Inr example_clip_b"
  by (simp add: process_video_clip_def VideoFileClip_def example_media_def subclip_def
        subclip_window_def resize_clip_vertical_def VERTICAL_WIDTH_def VERTICAL_HEIGHT_def
        resize_width_def crop_def slice_len_def fadein_def fadeout_def example_clip_b_def
        frame_values)

lemma example_process_c: "process_video_clip example_media ''c.mp4'' = Inl OSError"
  by (simp add: process_video_clip_def VideoFileClip_def example_media_def)

lemma example_durations: "duration example_clip_a = 3" "duration example_clip_b = 5"
  by (simp_all add: example_clip_a_def example_clip_b_def)

lemma example_select_ab:
  "select_loop example_media 6 ([], 0) [''a.mp4'', ''b.mp4''] =
     ([example_clip_a, example_clip_b], 8)"
  by (simp add: example_process_a example_process_b example_durations)

lemma example_create_ab:
  "create_video_sequence example_media [''a.mp4'', ''b.mp4''] 6 =
     Inr \<lparr>entries = [example_clip_a, example_clip_b], seq_duration = 6\<rparr>"
  by (simp add: create_video_sequence_def example_process_a example_process_b
        concatenate_videoclips_def example_durations seq_subclip_def subclip_window_def)



subsection \<open>The claims about the sequence builder\<close>






text \<open>
  C7. Every clip of every returned sequence comes from a file of the pool that
  could be opened, shows that file from 0 to the smaller of 5 seconds and the
  file's duration, and so lasts at most 5 seconds.
\<close>

theorem entries_capped:
  assumes "create_video_sequence m pool t = Inr plan" and "c \<in> set (entries plan)"
  shows "\<exists>f. m (source c) = Some f \<and> source c \<in> set pool \<and>
             trim_start c = 0 \<and> trim_end c = min 5.0 (vf_duration f) \<and>
             duration c = trim_end c - trim_start c \<and>
             trim_end c - trim_start c \<le> 5.0"
proof -
  have "c \<in> set (fst (select_loop m t ([], 0) pool))"
    using create_video_sequence_entries[OF assms(1)] assms(2) by simp
  then obtain p where p: "p \<in> set pool" "process_video_clip m p = Inr c"
    using select_loop_origin[of c m t "[]" 0 pool] by auto
  then show ?thesis
    using process_video_clip_Inr[OF p(2)] by auto
qed

theorem entries_capped_witness:
  "create_video_sequence example_media [''a.mp4'', ''b.mp4''] 6 =
     Inr \<lparr>entries = [example_clip_a, example_clip_b], seq_duration = 6\<rparr> \<and>
   example_clip_b \<in> set [example_clip_a, example_clip_b] \<and>
   (\<exists>f. example_media (source example_clip_b) = Some f \<and>
        source example_clip_b \<in> set [''a.mp4'', ''b.mp4''] \<and>
        trim_start example_clip_b = 0 \<and>
        trim_end example_clip_b = min 5.0 (vf_duration f) \<and>
        duration example_clip_b = trim_end example_clip_b - trim_start example_clip_b \<and>
        trim_end example_clip_b - trim_start example_clip_b \<le> 5.0)"
proof -
  have mem: "example_clip_b \<in>
      set (entries \<lparr>entries = [example_clip_a, example_clip_b], seq_duration = 6\<rparr>)"
    by simp
  show ?thesis
    using entries_capped[OF example_create_ab mem] by (simp add: example_create_ab)
qed

text \<open>
  C9. A path on which \<open>process_video_clip\<close> raises does not end the build: at
  any position of the pool it is passed over, and \<open>create_video_sequence\<close>
  returns what it returns on the pool without that path: the same sequence, in
  particular the same total duration, or the same error.
\<close>

theorem unreadable_skipped:
  assumes "process_video_clip m p = Inl e"
  shows "create_video_sequence m (xs @ p # ys) t = create_video_sequence m (xs @ ys) t"
  using select_loop_skip[OF assms, of t "[]" 0 xs ys]
  by (simp add: create_video_sequence_def)

theorem unreadable_skipped_witness:
  "process_video_clip example_media ''c.mp4'' = Inl OSError \<and>
   create_video_sequence example_media [''a.mp4'', ''c.mp4'', ''b.mp4''] 6 =
     create_video_sequence example_media [''a.mp4'', ''b.mp4''] 6 \<and>
   create_video_sequence example_media [''a.mp4'', ''c.mp4'', ''b.mp4''] 6 =
     Inr \<lparr>entries = [example_clip_a, example_clip_b], seq_duration = 6\<rparr>"
  using unreadable_skipped[OF example_process_c, of "[''a.mp4'']" "[''b.mp4'']" 6]
  by (simp add: example_process_c example_create_ab)



subsection \<open>The crop geometry\<close>

text \<open>The 4:3 frame is scaled to 2560 by 1920 and loses 740 columns on each
  side.\<close>

lemma example_frame_resized:
  "resize_clip_vertical example_frame =
     Inr (example_frame\<lparr>size := (1080, 1920), scaled_size := Some (2560, 1920),
            crop_rect := Some (740, 0, 1820, 1920)\<rparr>)"
  by (simp add: resize_clip_vertical_def example_frame_def VERTICAL_WIDTH_def
        VERTICAL_HEIGHT_def resize_height_def crop_def slice_len_def frame_values)

text \<open>On the frame of 980 by 960 the product \<open>1920 * (980 / 960)\<close> is rounded
  to a double just below 1960, which \<open>int\<close> truncates to 1959, while the
  library scales the frame to 1960 columns: 439 columns are removed on the
  left and 441 on the right.\<close>

lemma example_square_frame_resized:
  "resize_clip_vertical example_square_frame =
     Inr (example_square_frame\<lparr>size := (1080, 1920), scaled_size := Some (1960, 1920),
            crop_rect := Some (439, 0, 1519, 1920)\<rparr>)"
  by (simp add: resize_clip_vertical_def example_square_frame_def VERTICAL_WIDTH_def
        VERTICAL_HEIGHT_def resize_height_def crop_def slice_len_def frame_values)

text \<open>
  C8. The claim has the rectangle centred: the margins removed on the cropped
  axis equal within rounding, which is also what the source's comments say of
  the crop. On a frame of 1080 by 2000 the source does not do that. The ratio
  \<open>1080 / 2000\<close> is the double of 0.54, the quotient \<open>1080 / 0.54\<close> is rounded
  to the double just below 2000, and \<open>int\<close> truncates it to 1999, so that the
  centre is taken at row 999 and the rows 39 to 1959 are kept. The library
  scales the frame to 1080 by 2000. Of the 80 rows in excess 39 are removed
  above and 41 below.
\<close>

theorem crop_off_centre:
  "resize_clip_vertical example_tall_frame =
     Inr (example_tall_frame\<lparr>size := (1080, 1920), scaled_size := Some (1080, 2000),
            crop_rect := Some (0, 39, 1080, 1959)\<rparr>)"
  by (simp add: resize_clip_vertical_def example_tall_frame_def VERTICAL_WIDTH_def
        VERTICAL_HEIGHT_def resize_width_def crop_def slice_len_def frame_values)

end
